theory Spec2Isabelle
  imports Complex_Main
begin

section \<open>NACA four-digit airfoil coordinates (pyAeroTools, aero/airfoil.py)\<close>

text \<open>
  A shallow embedding of \<^verbatim>\<open>naca_four_digit_series(naca_number, chord, num_points)\<close>.

  Python floats and numpy's float64 are modelled as real numbers.
  \<^item> An exception is a value of \<open>error\<close> (the result is \<open>error + rows\<close>).
  \<^item> numpy's square root of a negative number is NaN (with a warning, not an
    exception), and NaN spreads through every later operation: a coordinate is a
    \<open>real option\<close>, with \<open>None\<close> for NaN.
  \<^item> \<open>m\<close>, \<open>p\<close> and \<open>t\<close> are Python floats (chord is a Python number), so
    dividing by a zero \<open>p**2\<close> or \<open>(1-p)**2\<close> raises ZeroDivisionError.
  \<^item> A designation is an int or a str; the characters of a str are taken from the
    first 256 code points.

  The range of the model. A real number stands for the double the code holds, so
  values agree with the code up to rounding. The outcome of a call (rows, an
  exception, NaN in a row) is the code's as long as the double arithmetic takes
  the branches of the real arithmetic, which it does for a chord that is 0 or
  has \<open>1e-150 \<le> |chord| \<le> 1e60\<close>, and a \<open>p = d2/10 * chord\<close> with \<open>|p - 1| \<ge> 1e-12\<close>.
  Outside this range the doubles behave differently, and the model does not follow
  them:
  \<^item> \<open>p**2\<close> is 0.0 for \<open>|p|\<close> below about \<open>1.5e-162\<close> (then ZeroDivisionError), and
    raises OverflowError for \<open>|p|\<close> above about \<open>1.3e154\<close>; \<open>(1-p)**2\<close> likewise;
  \<^item> the double \<open>p\<close> can be exactly 1.0 when \<open>d2/10 * chord\<close> is within a rounding
    error of 1 (the chord 3.3333333333333335 with the second digit 3);
  \<^item> \<open>x**2\<close> and \<open>x**4\<close> overflow to infinity for \<open>x\<close> above about \<open>1.3e154\<close> and
    \<open>1.2e77\<close>, and the thickness from a chord of about \<open>5e61\<close> on; infinities then
    give NaN.
  A theorem below that states the outcome of calls over a range of chords has
  these bounds among its hypotheses.
\<close>

subsection \<open>Errors and inputs\<close>

datatype error =
    AssertionError nat        \<comment> \<open>the assert of line 27; carries \<open>len(naca_number)\<close>\<close>
  | ValueError_literal        \<comment> \<open>\<open>int(...)\<close> on text that is no integer literal\<close>
  | ValueError_samples        \<comment> \<open>\<open>np.linspace\<close> with a negative \<open>num\<close>\<close>
  | ZeroDivisionError         \<comment> \<open>float division by zero in a camber loop\<close>

datatype designation = IntD int | StrD string

subsection \<open>\<open>str\<close> of an integer and \<open>int\<close> of a string\<close>

definition digit_char :: "nat \<Rightarrow> char" where
  "digit_char n = char_of (48 + n)"

fun str_nat :: "nat \<Rightarrow> string" where
  "str_nat n = (if n < 10 then [digit_char n] else str_nat (n div 10) @ [digit_char (n mod 10)])"

declare str_nat.simps [simp del]

definition py_str :: "int \<Rightarrow> string" where
  "py_str i = (if i < 0 then CHR ''-'' # str_nat (nat (- i)) else str_nat (nat i))"

definition is_digit :: "char \<Rightarrow> bool" where
  "is_digit c = (48 \<le> (of_char c :: nat) \<and> (of_char c :: nat) \<le> 57)"

definition digit_val :: "char \<Rightarrow> nat" where
  "digit_val c = of_char c - 48"

definition is_space :: "char \<Rightarrow> bool" where
  \<comment> \<open>the white space that \<open>int\<close> strips, among the first 256 code points: tab to
      carriage return, the space, and the two non-ASCII spaces U+0085 and U+00A0\<close>
  "is_space c = ((of_char c :: nat) \<in> {9, 10, 11, 12, 13, 32, 133, 160})"

fun parse_digits :: "nat \<Rightarrow> string \<Rightarrow> nat option" where
  "parse_digits acc [] = Some acc"
| "parse_digits acc (c # cs) =
     (if is_digit c then parse_digits (10 * acc + digit_val c) cs
      else if c = CHR ''_'' \<and> cs \<noteq> [] \<and> is_digit (hd cs) then parse_digits acc cs
      else None)"

definition parse_unsigned :: "string \<Rightarrow> nat option" where
  \<comment> \<open>decimal digits, single underscores allowed between two digits\<close>
  "parse_unsigned s = (case s of [] \<Rightarrow> None
     | c # cs \<Rightarrow> if is_digit c then parse_digits 0 s else None)"

definition strip :: "string \<Rightarrow> string" where
  "strip s = rev (dropWhile is_space (rev (dropWhile is_space s)))"

definition py_int :: "string \<Rightarrow> int option" where
  \<comment> \<open>\<open>int(s)\<close> in base 10: white space stripped, an optional sign, digits\<close>
  "py_int s = (case strip s of
       [] \<Rightarrow> None
     | c # cs \<Rightarrow>
         if c = CHR ''-'' then map_option (\<lambda>n. - int n) (parse_unsigned cs)
         else if c = CHR ''+'' then map_option int (parse_unsigned cs)
         else map_option int (parse_unsigned (c # cs)))"

definition designation_str :: "designation \<Rightarrow> string" where
  \<comment> \<open>lines 24-25: an int is replaced by its \<open>str\<close>\<close>
  "designation_str d = (case d of IntD i \<Rightarrow> py_str i | StrD s \<Rightarrow> s)"

subsection \<open>The parameters m, p and t (lines 32-34)\<close>

definition airfoil_params :: "string \<Rightarrow> real \<Rightarrow> error + (real \<times> real \<times> real)" where
  "airfoil_params s chord =
     (case py_int [s ! 0] of
        None \<Rightarrow> Inl ValueError_literal
      | Some d1 \<Rightarrow>
     (case py_int [s ! 1] of
        None \<Rightarrow> Inl ValueError_literal
      | Some d2 \<Rightarrow>
     (case py_int (drop 2 s) of
        None \<Rightarrow> Inl ValueError_literal
      | Some d34 \<Rightarrow>
          Inr (real_of_int d1 / 100 * chord,
               real_of_int d2 / 10 * chord,
               real_of_int d34 / 100 * chord))))"

subsection \<open>The stations (line 37)\<close>

definition linspace :: "real \<Rightarrow> real \<Rightarrow> int \<Rightarrow> error + real list" where
  \<comment> \<open>\<open>np.linspace(start, stop, num)\<close> with the end point: the samples are
      \<open>start + i * step\<close>, and the last one is then set to \<open>stop\<close>\<close>
  "linspace start stop num =
     (if num < 0 then Inl ValueError_samples
      else if num = 0 then Inr []
      else if num = 1 then Inr [start]
      else
        (let n = nat num;
             step = (stop - start) / real (n - 1);
             y = map (\<lambda>i. start + real i * step) [0..<n]
         in Inr (y[n - 1 := stop])))"

subsection \<open>Camber line, its slope and the thickness (lines 40-58)\<close>

definition yc_station :: "real \<Rightarrow> real \<Rightarrow> real \<Rightarrow> error + real" where
  "yc_station m p x =
     (if x < p then
        (if p ^ 2 = 0 then Inl ZeroDivisionError
         else Inr (m / p ^ 2 * (2 * p * x - x ^ 2)))
      else
        (if (1 - p) ^ 2 = 0 then Inl ZeroDivisionError
         else Inr (m / (1 - p) ^ 2 * ((1 - 2 * p) + 2 * p * x - x ^ 2))))"

definition dyc_station :: "real \<Rightarrow> real \<Rightarrow> real \<Rightarrow> error + real" where
  "dyc_station m p x =
     (if x < p then
        (if p ^ 2 = 0 then Inl ZeroDivisionError
         else Inr (m / p ^ 2 * (2 * p - 2 * x)))
      else
        (if (1 - p) ^ 2 = 0 then Inl ZeroDivisionError
         else Inr (m / (1 - p) ^ 2 * (2 * p - 2 * x))))"

fun collect :: "('a \<Rightarrow> error + 'b) \<Rightarrow> 'a list \<Rightarrow> error + 'b list" where
  \<comment> \<open>a loop that appends one value per station and stops at the first exception\<close>
  "collect f [] = Inr []"
| "collect f (x # xs) =
     (case f x of
        Inl e \<Rightarrow> Inl e
      | Inr y \<Rightarrow> (case collect f xs of Inl e \<Rightarrow> Inl e | Inr ys \<Rightarrow> Inr (y # ys)))"

definition yt_station :: "real \<Rightarrow> real \<Rightarrow> real option" where
  \<comment> \<open>line 49, one element of the array expression; NaN left of the origin\<close>
  "yt_station t x =
     (if x < 0 then None
      else Some (t / 0.2 * (0.2969 * sqrt x - 0.1260 * x - 0.3516 * x ^ 2
                            + 0.2843 * x ^ 3 - 0.1015 * x ^ 4)))"

subsection \<open>The surfaces (lines 61-67)\<close>

definition arctan2 :: "real \<Rightarrow> real \<Rightarrow> real" where
  "arctan2 y x =
     (if 0 < x then arctan (y / x)
      else if x < 0 then (if 0 \<le> y then arctan (y / x) + pi else arctan (y / x) - pi)
      else if 0 < y then pi / 2
      else if y < 0 then - (pi / 2)
      else 0)"

type_synonym row = "real option \<times> real option \<times> real option \<times> real option"

definition surface_row :: "real \<Rightarrow> real \<Rightarrow> real option \<Rightarrow> real \<Rightarrow> row" where
  \<comment> \<open>the columns \<open>x_upper, y_upper, x_lower, y_lower\<close> of one station\<close>
  "surface_row x yc yt theta =
     (case yt of
        None \<Rightarrow> (None, None, None, None)
      | Some h \<Rightarrow>
          (Some (x - h * sin theta), Some (yc + h * cos theta),
           Some (x + h * sin theta), Some (yc - h * cos theta)))"

definition naca_four_digit_series :: "designation \<Rightarrow> real \<Rightarrow> int \<Rightarrow> error + row list" where
  "naca_four_digit_series naca_number chord num_points =
     (let s = designation_str naca_number in
      if length s \<noteq> 4 then Inl (AssertionError (length s))
      else
        case airfoil_params s chord of
          Inl e \<Rightarrow> Inl e
        | Inr (m, p, t) \<Rightarrow>
        (case linspace 0 chord num_points of
          Inl e \<Rightarrow> Inl e
        | Inr x_stations \<Rightarrow>
        (case collect (yc_station m p) x_stations of
          Inl e \<Rightarrow> Inl e
        | Inr yc \<Rightarrow>
        (let yt = map (yt_station t) x_stations in
         case collect (dyc_station m p) x_stations of
          Inl e \<Rightarrow> Inl e
        | Inr dyc_dx \<Rightarrow>
            Inr (map (\<lambda>(x, c, h, d). surface_row x c h (arctan2 d 1))
                   (zip x_stations (zip yc (zip yt dyc_dx))))))))"

subsection \<open>Auxiliary notions for the proofs\<close>

text \<open>
  The two camber loops raise under the same condition; where they do not raise they
  compute \<open>yc_value\<close> and \<open>dyc_value\<close>, and the row of a station is \<open>station_row\<close>.
\<close>

definition camber_defined :: "real \<Rightarrow> real \<Rightarrow> bool" where
  "camber_defined p x = (if x < p then p \<noteq> 0 else p \<noteq> 1)"

definition yc_value :: "real \<Rightarrow> real \<Rightarrow> real \<Rightarrow> real" where
  "yc_value m p x =
     (if x < p then m / p ^ 2 * (2 * p * x - x ^ 2)
      else m / (1 - p) ^ 2 * ((1 - 2 * p) + 2 * p * x - x ^ 2))"

definition dyc_value :: "real \<Rightarrow> real \<Rightarrow> real \<Rightarrow> real" where
  "dyc_value m p x =
     (if x < p then m / p ^ 2 * (2 * p - 2 * x) else m / (1 - p) ^ 2 * (2 * p - 2 * x))"

definition station_row :: "real \<Rightarrow> real \<Rightarrow> real \<Rightarrow> real \<Rightarrow> row" where
  "station_row m p t x =
     surface_row x (yc_value m p x) (yt_station t x) (arctan2 (dyc_value m p x) 1)"

definition mirror_symmetric :: "row \<Rightarrow> bool" where
  \<comment> \<open>\<open>x_upper == x_lower\<close> and \<open>y_upper == -y_lower\<close>; a comparison with NaN is false\<close>
  "mirror_symmetric r =
     (case r of
        (Some xu, Some yu, Some xl, Some yl) \<Rightarrow> xu = xl \<and> yu = - yl
      | _ \<Rightarrow> False)"

section \<open>Basic facts about the model\<close>

lemma digit_not_special:
  "is_digit c \<Longrightarrow> \<not> is_space c \<and> c \<noteq> CHR ''-'' \<and> c \<noteq> CHR ''+'' \<and> c \<noteq> CHR ''_''"
  by (auto simp: is_digit_def is_space_def)

lemma strip_digits1: "is_digit c \<Longrightarrow> strip [c] = [c]"
  by (simp add: strip_def digit_not_special)

lemma strip_digits2: "is_digit c \<Longrightarrow> is_digit d \<Longrightarrow> strip [c, d] = [c, d]"
  by (simp add: strip_def digit_not_special)

lemma py_int_digit: "is_digit c \<Longrightarrow> py_int [c] = Some (int (digit_val c))"
  by (simp add: py_int_def strip_digits1 digit_not_special parse_unsigned_def)

lemma py_int_digits2:
  "is_digit c \<Longrightarrow> is_digit d \<Longrightarrow> py_int [c, d] = Some (int (10 * digit_val c + digit_val d))"
  by (simp add: py_int_def strip_digits2 digit_not_special parse_unsigned_def)

lemma airfoil_params_digits:
  assumes "is_digit c1" "is_digit c2" "is_digit c3" "is_digit c4"
  shows "airfoil_params [c1, c2, c3, c4] chord =
           Inr (real (digit_val c1) / 100 * chord,
                real (digit_val c2) / 10 * chord,
                real (10 * digit_val c3 + digit_val c4) / 100 * chord)"
  using assms by (simp add: airfoil_params_def py_int_digit py_int_digits2)

lemma collect_ok: "\<forall>x\<in>set xs. f x = Inr (g x) \<Longrightarrow> collect f xs = Inr (map g xs)"
proof (induction xs)
  case Nil
  show ?case by simp
next
  case (Cons a xs)
  from Cons.prems have a: "f a = Inr (g a)" by simp
  from Cons.prems have "\<forall>x\<in>set xs. f x = Inr (g x)" by simp
  then have "collect f xs = Inr (map g xs)" by (rule Cons.IH)
  with a show ?case by simp
qed


lemma collect_fails:
  "x \<in> set xs \<Longrightarrow> f x = Inl e \<Longrightarrow> \<forall>y e'. f y = Inl e' \<longrightarrow> e' = e \<Longrightarrow> collect f xs = Inl e"
proof (induction xs)
  case Nil
  from Nil(1) show ?case by simp
next
  case (Cons a xs)
  show ?case
  proof (cases "f a")
    case (Inl e')
    with Cons.prems(3) have "e' = e" by blast
    with Inl show ?thesis by simp
  next
    case (Inr y)
    have "x \<noteq> a" using Inr Cons.prems(2) by auto
    with Cons.prems(1) have "x \<in> set xs" by simp
    then have "collect f xs = Inl e" using Cons.prems(2,3) by (rule Cons.IH)
    with Inr show ?thesis by simp
  qed
qed


lemma yc_station_defined: "camber_defined p x \<Longrightarrow> yc_station m p x = Inr (yc_value m p x)"
  by (simp add: camber_defined_def yc_station_def yc_value_def split: if_splits)

lemma dyc_station_defined: "camber_defined p x \<Longrightarrow> dyc_station m p x = Inr (dyc_value m p x)"
  by (simp add: camber_defined_def dyc_station_def dyc_value_def split: if_splits)

lemma yc_station_undefined: "\<not> camber_defined p x \<Longrightarrow> yc_station m p x = Inl ZeroDivisionError"
  by (simp add: camber_defined_def yc_station_def split: if_splits)

lemma yc_station_error: "yc_station m p x = Inl e \<Longrightarrow> e = ZeroDivisionError"
  by (simp add: yc_station_def split: if_splits)

lemma zip_rows:
  "map (\<lambda>(x, c, h, d). F x c h d) (zip xs (zip (map a xs) (zip (map b xs) (map c xs))))
     = map (\<lambda>x. F x (a x) (b x) (c x)) xs"
  by (induction xs) simp_all

lemma linspace_stations:
  assumes "2 \<le> n"
  shows "linspace 0 chord n = Inr (map (\<lambda>i. real i * chord / real (nat n - 1)) [0..<nat n])"
proof -
  let ?k = "nat n"
  have k: "2 \<le> ?k" using assms by simp
  have "(map (\<lambda>i. 0 + real i * ((chord - 0) / real (?k - 1))) [0..<?k])[?k - 1 := chord]
        = map (\<lambda>i. real i * chord / real (?k - 1)) [0..<?k]"
    using k by (auto simp: list_eq_iff_nth_eq nth_list_update)
  then show ?thesis using assms by (simp add: linspace_def Let_def)
qed

lemma series_of_params:
  assumes len: "length s = 4"
    and par: "airfoil_params s chord = Inr (m, p, t)"
    and lin: "linspace 0 chord n = Inr xs"
    and ok: "\<forall>x\<in>set xs. camber_defined p x"
  shows "naca_four_digit_series (StrD s) chord n = Inr (map (station_row m p t) xs)"
proof -
  have yc: "collect (yc_station m p) xs = Inr (map (yc_value m p) xs)"
    by (rule collect_ok) (blast intro: yc_station_defined ok [rule_format])
  have dyc: "collect (dyc_station m p) xs = Inr (map (dyc_value m p) xs)"
    by (rule collect_ok) (blast intro: dyc_station_defined ok [rule_format])
  have rows: "map (\<lambda>(x, c, h, d). surface_row x c h (arctan2 d 1))
                (zip xs (zip (map (yc_value m p) xs)
                   (zip (map (yt_station t) xs) (map (dyc_value m p) xs))))
              = map (station_row m p t) xs"
    unfolding station_row_def by (rule zip_rows)
  show ?thesis
    unfolding naca_four_digit_series_def designation_str_def
    by (simp add: len par lin yc dyc rows del: zip_map_map)
qed

lemma series_zero_division_of_params:
  assumes len: "length s = 4"
    and par: "airfoil_params s chord = Inr (m, p, t)"
    and lin: "linspace 0 chord n = Inr xs"
    and x: "x \<in> set xs" and bad: "\<not> camber_defined p x"
  shows "naca_four_digit_series (StrD s) chord n = Inl ZeroDivisionError"
proof -
  have "collect (yc_station m p) xs = Inl ZeroDivisionError"
    using x yc_station_undefined [OF bad]
    by (rule collect_fails) (blast dest: yc_station_error)
  then show ?thesis
    unfolding naca_four_digit_series_def designation_str_def
    by (simp add: len par lin)
qed


lemma series_result:
  assumes len: "length s = 4" and par: "airfoil_params s chord = Inr (m, p, t)"
  shows "naca_four_digit_series (StrD s) chord n =
           (case linspace 0 chord n of
              Inl e \<Rightarrow> Inl e
            | Inr xs \<Rightarrow>
                if \<forall>x\<in>set xs. camber_defined p x then Inr (map (station_row m p t) xs)
                else Inl ZeroDivisionError)"
proof (cases "linspace 0 chord n")
  case (Inl e)
  then show ?thesis
    unfolding naca_four_digit_series_def designation_str_def by (simp add: len par)
next
  case (Inr xs)
  show ?thesis
  proof (cases "\<forall>x\<in>set xs. camber_defined p x")
    case True
    with series_of_params [OF len par Inr] Inr show ?thesis by simp
  next
    case False
    then obtain x where "x \<in> set xs" "\<not> camber_defined p x" by blast
    from series_zero_division_of_params [OF len par Inr this] False Inr
    show ?thesis by simp
  qed
qed

lemma linspace_small:
  "linspace 0 chord 0 = Inr []" "linspace 0 chord 1 = Inr [0]"
  "n < 0 \<Longrightarrow> linspace 0 chord n = Inl ValueError_samples"
  by (simp_all add: linspace_def)

lemma linspace_range:
  assumes "0 \<le> chord" "linspace 0 chord n = Inr xs" "x \<in> set xs"
  shows "0 \<le> x \<and> x \<le> chord"
proof -
  consider "n < 0" | "n = 0" | "n = 1" | "2 \<le> n" by linarith
  then show ?thesis
  proof cases
    case 1
    with assms(2) show ?thesis by (simp add: linspace_def)
  next
    case 2
    with assms(2,3) show ?thesis by (auto simp: linspace_def)
  next
    case 3
    with assms show ?thesis by (auto simp: linspace_def)
  next
    case 4
    let ?k = "nat n"
    from 4 have k: "2 \<le> ?k" by simp
    from assms(2) linspace_stations [OF 4, of chord]
    have "xs = map (\<lambda>i. real i * chord / real (?k - 1)) [0..<?k]" by simp
    with assms(3) obtain i where i: "i < ?k" and x: "x = real i * chord / real (?k - 1)"
      by auto
    have pos: "0 < real (?k - 1)" using k by simp
    have le: "real i \<le> real (?k - 1)" using i by simp
    have "0 \<le> x" using x assms(1) pos by simp
    moreover have "real i * chord \<le> real (?k - 1) * chord"
      using le assms(1) by (rule mult_right_mono)
    then have "x \<le> chord" using x pos by (simp add: pos_divide_le_eq mult.commute)
    ultimately show ?thesis by simp
  qed
qed

lemma station_row_origin:
  "station_row m p t 0 = (Some 0, Some (yc_value m p 0), Some 0, Some (yc_value m p 0))"
  by (simp add: station_row_def surface_row_def yt_station_def)

lemma str_nat_small: "n < 10 \<Longrightarrow> str_nat n = [digit_char n]"
  by (subst str_nat.simps) simp

lemma str_nat_large: "10 \<le> n \<Longrightarrow> str_nat n = str_nat (n div 10) @ [digit_char (n mod 10)]"
  by (subst str_nat.simps) simp

lemma length_str_nat_pos: "0 < length (str_nat n)"
  by (subst str_nat.simps) simp

lemma str_nat_2: "10 \<le> n \<Longrightarrow> n < 100 \<Longrightarrow> str_nat n = [digit_char (n div 10), digit_char (n mod 10)]"
  by (simp add: str_nat_large str_nat_small)

lemma str_nat_3: "100 \<le> n \<Longrightarrow> n < 1000 \<Longrightarrow>
   str_nat n = [digit_char (n div 100), digit_char (n div 10 mod 10), digit_char (n mod 10)]"
  by (simp add: str_nat_large [of n] str_nat_2 div_mult2_eq [symmetric])

lemma str_nat_4: "1000 \<le> n \<Longrightarrow> n < 10000 \<Longrightarrow>
   str_nat n = [digit_char (n div 1000), digit_char (n div 100 mod 10),
                digit_char (n div 10 mod 10), digit_char (n mod 10)]"
  by (simp add: str_nat_large [of n] str_nat_3 div_mult2_eq [symmetric])

lemma length_str_nat_5: "10000 \<le> n \<Longrightarrow> 5 \<le> length (str_nat n)"
proof -
  assume n: "10000 \<le> n"
  have a: "str_nat n = str_nat (n div 10) @ [digit_char (n mod 10)]" using n by (simp add: str_nat_large)
  have b: "str_nat (n div 10) = str_nat (n div 10 div 10) @ [digit_char (n div 10 mod 10)]"
    using n by (simp add: str_nat_large)
  have c: "str_nat (n div 10 div 10) = str_nat (n div 10 div 10 div 10) @ [digit_char (n div 10 div 10 mod 10)]"
    using n by (simp add: str_nat_large)
  have d: "str_nat (n div 10 div 10 div 10) = str_nat (n div 10 div 10 div 10 div 10) @ [digit_char (n div 10 div 10 div 10 mod 10)]"
    using n by (simp add: str_nat_large)
  have "length (str_nat n) = length (str_nat (n div 10 div 10 div 10 div 10)) + 4"
    by (simp add: a b c d)
  with length_str_nat_pos [of "n div 10 div 10 div 10 div 10"] show ?thesis by linarith
qed

lemma digit_char_props: "a < 10 \<Longrightarrow> is_digit (digit_char a) \<and> digit_val (digit_char a) = a"
  by (simp add: is_digit_def digit_val_def digit_char_def)

lemma linspace_returns:
  assumes "0 \<le> n"
  shows "\<exists>xs. linspace 0 chord n = Inr xs \<and> length xs = nat n"
proof -
  consider "n = 0" | "n = 1" | "2 \<le> n" using assms by linarith
  then show ?thesis
  proof cases
    case 1
    then show ?thesis by (simp add: linspace_small)
  next
    case 2
    then show ?thesis by (simp add: linspace_small)
  next
    case 3
    then show ?thesis by (simp add: linspace_stations)
  qed
qed

lemma linspace_error:
  assumes "linspace 0 chord n = Inl e"
  shows "e = ValueError_samples \<and> n < 0"
proof (cases "n < 0")
  case True
  with assms show ?thesis by (simp add: linspace_small)
next
  case False
  then have "0 \<le> n" by simp
  from linspace_returns [OF this, of chord] assms show ?thesis by auto
qed

lemma digit_val_le: "is_digit c \<Longrightarrow> digit_val c \<le> 9"
  unfolding is_digit_def digit_val_def by linarith

lemma digit_val_zero: "is_digit c \<Longrightarrow> (digit_val c = 0) = (c = CHR ''0'')"
proof -
  assume d: "is_digit c"
  have "(of_char c :: nat) = of_char CHR ''0'' \<longleftrightarrow> c = CHR ''0''"
    by (rule of_char_eq_iff)
  then have "(of_char c :: nat) = 48 \<longleftrightarrow> c = CHR ''0''" by simp
  moreover have "digit_val c = 0 \<longleftrightarrow> (of_char c :: nat) = 48"
    using d unfolding is_digit_def digit_val_def by linarith
  ultimately show ?thesis by simp
qed

lemma camber_defined_nonneg: "0 \<le> p \<Longrightarrow> p \<noteq> 1 \<Longrightarrow> 0 \<le> x \<Longrightarrow> camber_defined p x"
  by (auto simp: camber_defined_def)

lemma camber_defined_chord:
  assumes c: "0 \<le> chord" and x: "0 \<le> x"
    and p: "real d * chord \<noteq> 10"
  shows "camber_defined (real d / 10 * chord) x"
proof -
  have "0 \<le> real d / 10 * chord" using c by simp
  moreover have "real d / 10 * chord \<noteq> 1" using p by auto
  ultimately show ?thesis using x by (rule camber_defined_nonneg)
qed

lemma yc_value_origin:
  assumes c: "0 \<le> chord" and z: "d1 = 0 \<or> d2 \<noteq> (0::nat)"
  shows "yc_value (real d1 / 100 * chord) (real d2 / 10 * chord) 0 = 0"
proof (cases "0 < real d2 / 10 * chord")
  case True
  then show ?thesis by (simp add: yc_value_def)
next
  case False
  with c have "d2 = 0 \<or> chord = 0"
    by (auto simp: zero_less_mult_iff not_less)
  with z have "real d1 / 100 * chord = 0" by auto
  then show ?thesis by (simp add: yc_value_def)
qed

lemma linspace_two: "linspace 0 chord 2 = Inr [0, chord]"
proof -
  have "[0..<nat 2] = [0, 1]" by code_simp
  then show ?thesis by (simp add: linspace_def Let_def)
qed

lemma linspace_nth:
  assumes "2 \<le> n" "linspace 0 chord n = Inr xs"
  shows "length xs = nat n"
    and "i < nat n \<Longrightarrow> xs ! i = real i * (chord / real (nat n - 1))"
    and "xs ! 0 = 0" and "xs ! (nat n - 1) = chord" and "hd xs = 0"
proof -
  let ?k = "nat n"
  from assms(1) have k: "2 \<le> ?k" by simp
  from assms linspace_stations [OF assms(1), of chord]
  have xs: "xs = map (\<lambda>i. real i * chord / real (?k - 1)) [0..<?k]" by simp
  show len: "length xs = ?k" by (simp add: xs)
  have nth: "xs ! i = real i * (chord / real (?k - 1))" if "i < ?k" for i
    using that by (simp add: xs)
  then show "i < ?k \<Longrightarrow> xs ! i = real i * (chord / real (?k - 1))" .
  have "0 < ?k" using k by simp
  from nth [OF this] show z: "xs ! 0 = 0" by simp
  have "?k - 1 < ?k" using k by simp
  from nth [OF this] have "xs ! (?k - 1) = real (?k - 1) * (chord / real (?k - 1))" .
  moreover have "real (?k - 1) \<noteq> 0" using k by simp
  ultimately show "xs ! (?k - 1) = chord" by simp
  from len k have "xs \<noteq> []" by auto
  then show "hd xs = 0" using z by (simp add: hd_conv_nth)
qed

lemma linspace_sorted:
  assumes "0 \<le> chord" "linspace 0 chord n = Inr xs"
  shows "sorted xs"
proof -
  consider "n < 0" | "n = 0" | "n = 1" | "2 \<le> n" by linarith
  then show ?thesis
  proof cases
    case 1
    with assms(2) show ?thesis by (simp add: linspace_small)
  next
    case 2
    with assms(2) show ?thesis by (auto simp: linspace_small)
  next
    case 3
    with assms(2) show ?thesis by (auto simp: linspace_small)
  next
    case 4
    let ?k = "nat n"
    from 4 have k: "2 \<le> ?k" by simp
    have len: "length xs = ?k" using 4 assms(2) by (rule linspace_nth(1))
    have nth: "xs ! i = real i * (chord / real (?k - 1))" if "i < ?k" for i
      using 4 assms(2) that by (rule linspace_nth(2))
    have step: "0 \<le> chord / real (?k - 1)" using assms(1) by simp
    show ?thesis
      unfolding sorted_iff_nth_mono
    proof (intro allI impI)
      fix i j
      assume ij: "i \<le> j" and j: "j < length xs"
      then have "real i \<le> real j" by simp
      then have "real i * (chord / real (?k - 1)) \<le> real j * (chord / real (?k - 1))"
        using step by (rule mult_right_mono)
      with nth [of i] nth [of j] ij j len show "xs ! i \<le> xs ! j" by simp
    qed
  qed
qed

lemma margin_not_ten:
  assumes "1 / 10 ^ 12 \<le> \<bar>real d / 10 * chord - 1\<bar>"
  shows "real d * chord \<noteq> 10"
proof
  assume "real d * chord = 10"
  then have "\<bar>real d / 10 * chord - 1\<bar> = 0" by simp
  with assms have "1 / 10 ^ 12 \<le> (0::real)" by (simp only:)
  then show False by simp
qed

lemma camber_defined_neg: "p < 0 \<Longrightarrow> camber_defined p x"
  by (auto simp: camber_defined_def)

lemma yc_value_zero_camber: "yc_value 0 p x = 0"
  by (simp add: yc_value_def)

lemma stations_defined:
  assumes lin: "linspace 0 chord n = Inr xs"
    and margin: "1 / 10 ^ 12 \<le> \<bar>real d / 10 * chord - 1\<bar>"
    and sign: "0 \<le> chord \<or> d \<noteq> 0"
  shows "\<forall>x\<in>set xs. camber_defined (real d / 10 * chord) x"
proof (cases "0 \<le> chord")
  case True
  show ?thesis
  proof
    fix x assume "x \<in> set xs"
    with linspace_range [OF True lin] have "0 \<le> x" by blast
    with True show "camber_defined (real d / 10 * chord) x"
      using margin_not_ten [OF margin] by (rule camber_defined_chord)
  qed
next
  case False
  with sign have "0 < real d" "chord < 0" by simp_all
  then have "real d / 10 * chord < 0" by (simp add: mult_pos_neg)
  then show ?thesis by (simp add: camber_defined_neg)
qed

lemma series_rows_of_digits:
  assumes d: "is_digit c1" "is_digit c2" "is_digit c3" "is_digit c4"
    and n: "0 \<le> n"
    and margin: "1 / 10 ^ 12 \<le> \<bar>real (digit_val c2) / 10 * chord - 1\<bar>"
    and sign: "0 \<le> chord \<or> digit_val c2 \<noteq> 0"
  shows "\<exists>xs. linspace 0 chord n = Inr xs \<and> length xs = nat n
           \<and> naca_four_digit_series (StrD [c1, c2, c3, c4]) chord n =
               Inr (map (station_row (real (digit_val c1) / 100 * chord)
                          (real (digit_val c2) / 10 * chord)
                          (real (10 * digit_val c3 + digit_val c4) / 100 * chord)) xs)"
proof -
  from linspace_returns [OF n, of chord]
  obtain xs where xs: "linspace 0 chord n = Inr xs" "length xs = nat n" by blast
  from stations_defined [OF xs(1) margin sign]
  have "\<forall>x\<in>set xs. camber_defined (real (digit_val c2) / 10 * chord) x" .
  with series_of_params [OF _ airfoil_params_digits [OF d] xs(1)] xs show ?thesis
    by simp
qed

section \<open>Input validation\<close>

text \<open>
  C4. A designation whose string form has a length other than 4 is rejected by the
  assertion, whatever the chord, the point count and the characters are: the error
  carries the length, and nothing is parsed or computed before it.
\<close>

theorem wrong_length_rejected:
  "length (designation_str d) \<noteq> 4 \<Longrightarrow>
     naca_four_digit_series d chord num_points = Inl (AssertionError (length (designation_str d)))"
  by (simp add: naca_four_digit_series_def)

theorem wrong_length_rejected_witness:
  "naca_four_digit_series (StrD ''123'') 1 50 = Inl (AssertionError 3)
   \<and> naca_four_digit_series (StrD ''12345'') 1 50 = Inl (AssertionError 5)"
  using wrong_length_rejected [of "StrD ''123''" 1 50]
        wrong_length_rejected [of "StrD ''12345''" 1 50]
  by (simp add: designation_str_def)

section \<open>The parameters\<close>



section \<open>The camber line when the second digit is 0\<close>

lemma camber_at_zero_position:
  assumes "0 \<le> x"
  shows "yc_station m 0 x = Inr (m * (1 - x ^ 2))" "dyc_station m 0 x = Inr (- 2 * m * x)"
  using assms by (simp_all add: yc_station_def dyc_station_def)

text \<open>
  C1, as the code has it. With a second digit 0 the parameter \<open>p\<close> is 0 and, at a
  station \<open>x\<close> in \<open>[0, chord]\<close> of a chord up to \<open>10^60\<close>, both loops evaluate their
  second formula literally: \<open>yc = m (1 - x\<^sup>2)\<close> and \<open>dyc/dx = - 2 m x\<close>. There is no
  special case; the camber line is flat (\<open>yc = 0\<close>, \<open>dyc/dx = 0\<close>) when the first
  digit is 0 as well.
\<close>

theorem camber_second_digit_zero:
  assumes "is_digit c1" "is_digit c3" "is_digit c4"
    and "0 \<le> x" and "x \<le> chord" and "chord \<le> 10 ^ 60"
  shows "airfoil_params [c1, CHR ''0'', c3, c4] chord =
           Inr (real (digit_val c1) / 100 * chord, 0,
                real (10 * digit_val c3 + digit_val c4) / 100 * chord)
       \<and> yc_station (real (digit_val c1) / 100 * chord) 0 x =
           Inr (real (digit_val c1) / 100 * chord * (1 - x ^ 2))
       \<and> dyc_station (real (digit_val c1) / 100 * chord) 0 x =
           Inr (- 2 * (real (digit_val c1) / 100 * chord) * x)
       \<and> (c1 = CHR ''0'' \<longrightarrow>
            yc_station (real (digit_val c1) / 100 * chord) 0 x = Inr 0
          \<and> dyc_station (real (digit_val c1) / 100 * chord) 0 x = Inr 0)"
proof -
  have z: "is_digit CHR ''0''" "digit_val CHR ''0'' = 0"
    by (simp_all add: is_digit_def digit_val_def)
  have par: "airfoil_params [c1, CHR ''0'', c3, c4] chord =
           Inr (real (digit_val c1) / 100 * chord, 0,
                real (10 * digit_val c3 + digit_val c4) / 100 * chord)"
    using airfoil_params_digits [OF assms(1) z(1) assms(2,3), of chord] by (simp add: z(2))
  have flat: "c1 = CHR ''0'' \<longrightarrow>
            yc_station (real (digit_val c1) / 100 * chord) 0 x = Inr 0
          \<and> dyc_station (real (digit_val c1) / 100 * chord) 0 x = Inr 0"
    using assms(4) by (simp add: z(2) camber_at_zero_position)
  from par camber_at_zero_position [OF assms(4)] flat show ?thesis by blast
qed

theorem camber_second_digit_zero_witness:
  "yc_station 0 0 (1 / 2) = Inr 0 \<and> dyc_station 0 0 (1 / 2) = Inr 0"
proof -
  have d: "is_digit CHR ''0''" "is_digit CHR ''1''" "is_digit CHR ''2''"
    by (simp_all add: is_digit_def)
  have x: "(0::real) \<le> 1 / 2" "(1 / 2 :: real) \<le> 1" "(1::real) \<le> 10 ^ 60" by simp_all
  from camber_second_digit_zero [OF d(1) d(2) d(3) x] show ?thesis
    by (simp add: digit_val_def)
qed

text \<open>
  The designation 2012 with chord 1: the second digit is 0, and at the station
  \<open>x = 0\<close> the camber ordinate is 0.02, at \<open>x = 1\<close> the slope is -0.04.
\<close>

theorem camber_second_digit_zero_counterexample:
  "airfoil_params ''2012'' 1 = Inr (1 / 50, 0, 3 / 25)
   \<and> yc_station (1 / 50) 0 0 = Inr (1 / 50)
   \<and> dyc_station (1 / 50) 0 1 = Inr (- (1 / 25))
   \<and> yc_station (1 / 50) 0 0 \<noteq> Inr 0
   \<and> dyc_station (1 / 50) 0 1 \<noteq> Inr 0"
proof -
  have d: "is_digit CHR ''2''" "is_digit CHR ''0''" "is_digit CHR ''1''"
    by (simp_all add: is_digit_def)
  have "airfoil_params ''2012'' 1 = Inr (1 / 50, 0, 3 / 25)"
    using airfoil_params_digits [OF d(1) d(2) d(3) d(1), of 1] by (simp add: digit_val_def)
  then show ?thesis by (simp add: yc_station_def dyc_station_def)
qed

section \<open>No division by zero when the second digit is 0\<close>

text \<open>
  C9. With a second digit 0 and a positive chord, \<open>p = 0\<close>; no station is below
  \<open>p\<close>, so the branch dividing by \<open>p\<^sup>2\<close> is not taken, the other branch divides by
  \<open>(1 - 0)\<^sup>2 = 1\<close>, and the call does not raise ZeroDivisionError.
\<close>

theorem no_zero_division_when_second_digit_zero:
  assumes "is_digit c1" "is_digit c3" "is_digit c4" and "0 < chord"
  shows "airfoil_params [c1, CHR ''0'', c3, c4] chord =
           Inr (real (digit_val c1) / 100 * chord, 0,
                real (10 * digit_val c3 + digit_val c4) / 100 * chord)
       \<and> (\<forall>xs. linspace 0 chord n = Inr xs \<longrightarrow>
             (\<forall>x\<in>set xs. 0 \<le> x \<and> x \<le> chord \<and> \<not> x < 0
                \<and> yc_station (real (digit_val c1) / 100 * chord) 0 x \<noteq> Inl ZeroDivisionError
                \<and> dyc_station (real (digit_val c1) / 100 * chord) 0 x \<noteq> Inl ZeroDivisionError))
       \<and> naca_four_digit_series (StrD [c1, CHR ''0'', c3, c4]) chord n \<noteq> Inl ZeroDivisionError
       \<and> (0 \<le> n \<longrightarrow> (\<exists>rows. naca_four_digit_series (StrD [c1, CHR ''0'', c3, c4]) chord n = Inr rows))"
proof -
  let ?m = "real (digit_val c1) / 100 * chord"
  let ?t = "real (10 * digit_val c3 + digit_val c4) / 100 * chord"
  have z: "is_digit CHR ''0''" "digit_val CHR ''0'' = 0"
    by (simp_all add: is_digit_def digit_val_def)
  have par: "airfoil_params [c1, CHR ''0'', c3, c4] chord = Inr (?m, 0, ?t)"
    using airfoil_params_digits [OF assms(1) z(1) assms(2,3), of chord] by (simp add: z(2))
  have range: "0 \<le> x \<and> x \<le> chord" if "linspace 0 chord n = Inr xs" "x \<in> set xs" for xs x
    using linspace_range [OF _ that] assms(4) by simp
  have stations: "\<forall>xs. linspace 0 chord n = Inr xs \<longrightarrow>
             (\<forall>x\<in>set xs. 0 \<le> x \<and> x \<le> chord \<and> \<not> x < 0
                \<and> yc_station ?m 0 x \<noteq> Inl ZeroDivisionError
                \<and> dyc_station ?m 0 x \<noteq> Inl ZeroDivisionError)"
  proof (intro allI impI ballI)
    fix xs x
    assume "linspace 0 chord n = Inr xs" "x \<in> set xs"
    then have "0 \<le> x \<and> x \<le> chord" by (rule range)
    then show "0 \<le> x \<and> x \<le> chord \<and> \<not> x < 0
                \<and> yc_station ?m 0 x \<noteq> Inl ZeroDivisionError
                \<and> dyc_station ?m 0 x \<noteq> Inl ZeroDivisionError"
      by (simp add: camber_at_zero_position)
  qed
  have len: "length [c1, CHR ''0'', c3, c4] = 4" by simp
  have res: "naca_four_digit_series (StrD [c1, CHR ''0'', c3, c4]) chord n =
           (case linspace 0 chord n of
              Inl e \<Rightarrow> Inl e
            | Inr xs \<Rightarrow>
                if \<forall>x\<in>set xs. camber_defined 0 x then Inr (map (station_row ?m 0 ?t) xs)
                else Inl ZeroDivisionError)"
    by (rule series_result [OF len par])
  have defd: "camber_defined 0 x" if "linspace 0 chord n = Inr xs" "x \<in> set xs" for xs x
    using range [OF that] by (simp add: camber_defined_def)
  have noerr: "naca_four_digit_series (StrD [c1, CHR ''0'', c3, c4]) chord n \<noteq> Inl ZeroDivisionError"
  proof (cases "linspace 0 chord n")
    case (Inl e)
    then have "e = ValueError_samples" by (simp add: linspace_error)
    with Inl res show ?thesis by simp
  next
    case (Inr xs)
    with defd have "\<forall>x\<in>set xs. camber_defined 0 x" by blast
    with Inr res show ?thesis by simp
  qed
  have ret: "0 \<le> n \<longrightarrow> (\<exists>rows. naca_four_digit_series (StrD [c1, CHR ''0'', c3, c4]) chord n = Inr rows)"
  proof
    assume "0 \<le> n"
    then obtain xs where xs: "linspace 0 chord n = Inr xs"
      using linspace_returns [of n chord] by blast
    with defd have "\<forall>x\<in>set xs. camber_defined 0 x" by blast
    with xs res show "\<exists>rows. naca_four_digit_series (StrD [c1, CHR ''0'', c3, c4]) chord n = Inr rows"
      by simp
  qed
  from par stations noerr ret show ?thesis by blast
qed

theorem no_zero_division_when_second_digit_zero_witness:
  "naca_four_digit_series (StrD ''2012'') 1 50 \<noteq> Inl ZeroDivisionError
   \<and> (\<exists>rows. naca_four_digit_series (StrD ''2012'') 1 50 = Inr rows)"
proof -
  have d: "is_digit CHR ''2''" "is_digit CHR ''1''"
    by (simp_all add: is_digit_def)
  have c: "(0::real) < 1" by simp
  from no_zero_division_when_second_digit_zero [OF d(1) d(2) d(1) c, of 50] show ?thesis
    by simp
qed

section \<open>The leading edge\<close>

text \<open>
  C2, as the code has it. Four digits, at least two points, a chord that is 0 or
  of magnitude between \<open>10^-150\<close> and \<open>10^60\<close>, and \<open>p = d2/10 * chord\<close> at least
  \<open>10^-12\<close> away from 1. The call returns \<open>num_points\<close> rows and the first one is
  (0, 0, 0, 0) in each of these cases: the chord is 0; the first digit is 0 and
  the second is not (whatever the sign of the chord); the chord is positive and
  the first digit is 0 or the second is not 0.
\<close>

theorem leading_edge_pinches:
  assumes "is_digit c1" "is_digit c2" "is_digit c3" "is_digit c4"
    and "2 \<le> n"
    and "chord = 0 \<or> (1 / 10 ^ 150 \<le> \<bar>chord\<bar> \<and> \<bar>chord\<bar> \<le> 10 ^ 60)"
    and "1 / 10 ^ 12 \<le> \<bar>real (digit_val c2) / 10 * chord - 1\<bar>"
    and "chord = 0
         \<or> (c1 = CHR ''0'' \<and> c2 \<noteq> CHR ''0'')
         \<or> (0 < chord \<and> (c1 = CHR ''0'' \<or> c2 \<noteq> CHR ''0''))"
  shows "\<exists>rows. naca_four_digit_series (StrD [c1, c2, c3, c4]) chord n = Inr rows
           \<and> length rows = nat n
           \<and> hd rows = (Some 0, Some 0, Some 0, Some 0)"
proof -
  let ?m = "real (digit_val c1) / 100 * chord"
  let ?p = "real (digit_val c2) / 10 * chord"
  let ?t = "real (10 * digit_val c3 + digit_val c4) / 100 * chord"
  have z1: "(digit_val c1 = 0) = (c1 = CHR ''0'')" using assms(1) by (rule digit_val_zero)
  have z2: "(digit_val c2 = 0) = (c2 = CHR ''0'')" using assms(2) by (rule digit_val_zero)
  from assms(5) have n0: "0 \<le> n" by simp
  have sign: "0 \<le> chord \<or> digit_val c2 \<noteq> 0" using assms(8) z2 by auto
  from series_rows_of_digits [OF assms(1-4) n0 assms(7) sign]
  obtain xs where xs: "linspace 0 chord n = Inr xs" "length xs = nat n"
    and res: "naca_four_digit_series (StrD [c1, c2, c3, c4]) chord n
                = Inr (map (station_row ?m ?p ?t) xs)"
    by blast
  from xs(2) assms(5) have ne: "xs \<noteq> []" by auto
  have "hd xs = 0" using assms(5) xs(1) by (rule linspace_nth(5))
  with ne have first: "hd (map (station_row ?m ?p ?t) xs) = station_row ?m ?p ?t 0"
    by (simp add: hd_map)
  have yc0: "yc_value ?m ?p 0 = 0"
  proof (cases "chord = 0 \<or> c1 = CHR ''0''")
    case True
    then have "?m = 0" using z1 by auto
    then show ?thesis by (simp only: yc_value_zero_camber)
  next
    case False
    with assms(8) have c: "0 \<le> chord" and d: "digit_val c1 = 0 \<or> digit_val c2 \<noteq> 0"
      using z2 by auto
    from c d show ?thesis by (rule yc_value_origin)
  qed
  from first yc0 have "hd (map (station_row ?m ?p ?t) xs) = (Some 0, Some 0, Some 0, Some 0)"
    by (simp add: station_row_origin)
  with res xs(2) show ?thesis by simp
qed

theorem leading_edge_pinches_witness:
  "(\<exists>rows. naca_four_digit_series (StrD ''2317'') 1 50 = Inr rows
           \<and> length rows = 50 \<and> hd rows = (Some 0, Some 0, Some 0, Some 0))
   \<and> (\<exists>rows. naca_four_digit_series (StrD ''0412'') (- 1) 2 = Inr rows
           \<and> length rows = 2 \<and> hd rows = (Some 0, Some 0, Some 0, Some 0))"
proof -
  have d: "is_digit CHR ''2''" "is_digit CHR ''3''" "is_digit CHR ''1''" "is_digit CHR ''7''"
    "is_digit CHR ''0''" "is_digit CHR ''4''"
    by (simp_all add: is_digit_def)
  have h: "(2::int) \<le> 50"
    "(1::real) = 0 \<or> (1 / 10 ^ 150 \<le> \<bar>1::real\<bar> \<and> \<bar>1::real\<bar> \<le> 10 ^ 60)"
    "1 / 10 ^ 12 \<le> \<bar>real (digit_val CHR ''3'') / 10 * 1 - 1\<bar>"
    "(1::real) = 0 \<or> (CHR ''2'' = CHR ''0'' \<and> CHR ''3'' \<noteq> CHR ''0'')
       \<or> (0 < (1::real) \<and> (CHR ''2'' = CHR ''0'' \<or> CHR ''3'' \<noteq> CHR ''0''))"
    by (simp_all add: digit_val_def)
  have g: "(2::int) \<le> 2"
    "(- 1::real) = 0 \<or> (1 / 10 ^ 150 \<le> \<bar>- 1::real\<bar> \<and> \<bar>- 1::real\<bar> \<le> 10 ^ 60)"
    "1 / 10 ^ 12 \<le> \<bar>real (digit_val CHR ''4'') / 10 * (- 1) - 1\<bar>"
    "(- 1::real) = 0 \<or> (CHR ''0'' = CHR ''0'' \<and> CHR ''4'' \<noteq> CHR ''0'')
       \<or> (0 < (- 1::real) \<and> (CHR ''0'' = CHR ''0'' \<or> CHR ''4'' \<noteq> CHR ''0''))"
    by (simp_all add: digit_val_def)
  from leading_edge_pinches [OF d(1) d(2) d(3) d(4) h]
    leading_edge_pinches [OF d(5) d(6) d(3) d(1) g]
  show ?thesis by simp
qed

text \<open>
  The designation 2012 with chord 1 and two points: the first row is
  (0, 0.02, 0, 0.02), since with \<open>p = 0\<close> the station 0 takes the second camber formula.
\<close>

theorem leading_edge_pinches_counterexample:
  "naca_four_digit_series (StrD ''2012'') 1 2 =
     Inr [station_row (1 / 50) 0 (3 / 25) 0, station_row (1 / 50) 0 (3 / 25) 1]
   \<and> station_row (1 / 50) 0 (3 / 25) 0 = (Some 0, Some (1 / 50), Some 0, Some (1 / 50))"
proof -
  have d: "is_digit CHR ''2''" "is_digit CHR ''0''" "is_digit CHR ''1''"
    by (simp_all add: is_digit_def)
  have par: "airfoil_params ''2012'' 1 = Inr (1 / 50, 0, 3 / 25)"
    using airfoil_params_digits [OF d(1) d(2) d(3) d(1), of 1] by (simp add: digit_val_def)
  have len: "length ''2012'' = 4" by simp
  have ok: "\<forall>x\<in>set [0, 1::real]. camber_defined 0 x" by (simp add: camber_defined_def)
  from series_of_params [OF len par linspace_two ok]
  show ?thesis by (simp add: station_row_origin yc_value_def)
qed

section \<open>The stations and the shape of the output\<close>

text \<open>
  C8, as the code has it. For four digits, \<open>num_points \<ge> 2\<close>, a chord that is 0 or
  between \<open>10^-150\<close> and \<open>10^60\<close>, and \<open>p = d2/10 * chord\<close> at least \<open>10^-12\<close> away
  from 1, the call returns; the stations are \<open>i * chord / (num_points - 1)\<close> for
  \<open>i = 0, ..., num_points - 1\<close> (uniformly spaced, from 0 to the chord, both
  included), they are non-decreasing, and the output has one row per station, in
  station order.
\<close>

theorem stations_uniform_and_output_length:
  assumes "is_digit c1" "is_digit c2" "is_digit c3" "is_digit c4"
    and "2 \<le> n"
    and "chord = 0 \<or> (1 / 10 ^ 150 \<le> chord \<and> chord \<le> 10 ^ 60)"
    and "1 / 10 ^ 12 \<le> \<bar>real (digit_val c2) / 10 * chord - 1\<bar>"
  shows "\<exists>xs rows.
           linspace 0 chord n = Inr xs
         \<and> naca_four_digit_series (StrD [c1, c2, c3, c4]) chord n = Inr rows
         \<and> length rows = nat n \<and> length xs = nat n
         \<and> rows = map (station_row (real (digit_val c1) / 100 * chord)
                          (real (digit_val c2) / 10 * chord)
                          (real (10 * digit_val c3 + digit_val c4) / 100 * chord)) xs
         \<and> (\<forall>i<nat n. xs ! i = real i * (chord / real (nat n - 1)))
         \<and> xs ! 0 = 0 \<and> xs ! (nat n - 1) = chord
         \<and> sorted xs"
proof -
  from assms(5) have n0: "0 \<le> n" by simp
  have c: "0 \<le> chord"
  proof (cases "chord = 0")
    case True
    then show ?thesis by simp
  next
    case False
    with assms(6) have "1 / 10 ^ 150 \<le> chord" by blast
    moreover have "(0::real) \<le> 1 / 10 ^ 150" by simp
    ultimately show ?thesis by (rule order_trans [rotated])
  qed
  then have sign: "0 \<le> chord \<or> digit_val c2 \<noteq> 0" by blast
  from series_rows_of_digits [OF assms(1-4) n0 assms(7) sign]
  obtain xs where xs: "linspace 0 chord n = Inr xs" "length xs = nat n"
    and res: "naca_four_digit_series (StrD [c1, c2, c3, c4]) chord n
                = Inr (map (station_row (real (digit_val c1) / 100 * chord)
                          (real (digit_val c2) / 10 * chord)
                          (real (10 * digit_val c3 + digit_val c4) / 100 * chord)) xs)"
    by blast
  have nth: "\<forall>i<nat n. xs ! i = real i * (chord / real (nat n - 1))"
    using linspace_nth(2) [OF assms(5) xs(1)] by blast
  have first: "xs ! 0 = 0" using assms(5) xs(1) by (rule linspace_nth(3))
  have final: "xs ! (nat n - 1) = chord" using assms(5) xs(1) by (rule linspace_nth(4))
  have sorted: "sorted xs" using c xs(1) by (rule linspace_sorted)
  from xs res nth first final sorted show ?thesis by simp
qed

theorem stations_uniform_and_output_length_witness:
  "\<exists>xs rows.
      linspace 0 1 50 = Inr xs
    \<and> naca_four_digit_series (StrD ''2317'') 1 50 = Inr rows
    \<and> length rows = 50 \<and> length xs = 50
    \<and> xs ! 0 = 0 \<and> xs ! 49 = 1 \<and> sorted xs"
proof -
  have d: "is_digit CHR ''2''" "is_digit CHR ''3''" "is_digit CHR ''1''" "is_digit CHR ''7''"
    by (simp_all add: is_digit_def)
  have h: "(2::int) \<le> 50"
    "(1::real) = 0 \<or> (1 / 10 ^ 150 \<le> (1::real) \<and> (1::real) \<le> 10 ^ 60)"
    "1 / 10 ^ 12 \<le> \<bar>real (digit_val CHR ''3'') / 10 * 1 - 1\<bar>"
    by (simp_all add: digit_val_def)
  from stations_uniform_and_output_length [OF d h]
  obtain xs rows where
    "linspace 0 1 50 = Inr xs"
    "naca_four_digit_series (StrD ''2317'') 1 50 = Inr rows"
    "length rows = nat 50" "length xs = nat 50"
    "xs ! 0 = 0" "xs ! (nat 50 - 1) = 1" "sorted xs"
    by blast
  then show ?thesis by simp
qed

text \<open>
  The designation 2512 with chord 2 has \<open>p = 1\<close>: the station 2 takes the second
  camber formula, which divides by \<open>(1 - p)\<^sup>2 = 0\<close>, and the call raises
  ZeroDivisionError instead of returning rows. With the chord -1 the stations of
  two points are 0 and -1, in decreasing order, and 2412 returns two rows for them.
\<close>

theorem stations_uniform_and_output_length_counterexample:
  "naca_four_digit_series (StrD ''2512'') 2 2 = Inl ZeroDivisionError
   \<and> linspace 0 (- 1) 2 = Inr [0, - 1]
   \<and> \<not> sorted [0, - 1 :: real]
   \<and> naca_four_digit_series (StrD ''2412'') (- 1) 2 =
       Inr [(Some 0, Some (- (9 / 490)), Some 0, Some (- (9 / 490))),
            (None, None, None, None)]"
proof -
  have d: "is_digit CHR ''2''" "is_digit CHR ''5''" "is_digit CHR ''1''" "is_digit CHR ''4''"
    by (simp_all add: is_digit_def)
  have par: "airfoil_params ''2512'' 2 = Inr (1 / 25, 1, 6 / 25)"
    using airfoil_params_digits [OF d(1) d(2) d(3) d(1), of 2] by (simp add: digit_val_def)
  have len: "length ''2512'' = 4" by simp
  have x: "(2::real) \<in> set [0, 2]" by simp
  have bad: "\<not> camber_defined 1 (2::real)" by (simp add: camber_defined_def)
  have crash: "naca_four_digit_series (StrD ''2512'') 2 2 = Inl ZeroDivisionError"
    by (rule series_zero_division_of_params [OF len par linspace_two x bad])
  have par': "airfoil_params ''2412'' (- 1) = Inr (- (1 / 50), - (2 / 5), - (3 / 25))"
    using airfoil_params_digits [OF d(1) d(4) d(3) d(1), of "- 1"] by (simp add: digit_val_def)
  have len': "length ''2412'' = 4" by simp
  have ok: "\<forall>x\<in>set [0, - 1 :: real]. camber_defined (- (2 / 5)) x"
    by (simp add: camber_defined_def)
  have row0: "station_row (- (1 / 50)) (- (2 / 5)) (- (3 / 25)) 0
                = (Some 0, Some (- (9 / 490)), Some 0, Some (- (9 / 490)))"
    by (simp add: station_row_origin yc_value_def power2_eq_square)
  have row1: "station_row (- (1 / 50)) (- (2 / 5)) (- (3 / 25)) (- 1) = (None, None, None, None)"
    by (simp add: station_row_def surface_row_def yt_station_def)
  from series_of_params [OF len' par' linspace_two ok] row0 row1
  have "naca_four_digit_series (StrD ''2412'') (- 1) 2 =
       Inr [(Some 0, Some (- (9 / 490)), Some 0, Some (- (9 / 490))),
            (None, None, None, None)]" by simp
  with crash show ?thesis by (simp add: linspace_two)
qed

section \<open>The symmetric airfoil 0012\<close>

lemma params_0012: "airfoil_params ''0012'' chord = Inr (0, 0, 3 / 25 * chord)"
proof -
  have d: "is_digit CHR ''0''" "is_digit CHR ''1''" "is_digit CHR ''2''"
    by (simp_all add: is_digit_def)
  from airfoil_params_digits [OF d(1) d(1) d(2) d(3), of chord] show ?thesis
    by (simp add: digit_val_def)
qed

lemma station_row_flat:
  assumes "yt_station t x = Some h" and "0 \<le> x"
  shows "station_row 0 0 t x = (Some x, Some h, Some x, Some (- h))"
  using assms
  by (simp add: station_row_def surface_row_def yc_value_def dyc_value_def arctan2_def)

lemma station_row_flat_symmetric: "0 \<le> x \<Longrightarrow> mirror_symmetric (station_row 0 0 t x)"
proof -
  assume x: "0 \<le> x"
  then obtain h where "yt_station t x = Some h" by (simp add: yt_station_def)
  from station_row_flat [OF this x] show ?thesis by (simp add: mirror_symmetric_def)
qed

lemma camber_defined_origin: "camber_defined p 0"
  by (auto simp: camber_defined_def)

text \<open>
  C6, as the code has it. For the designation 0012, every chord from 0 to \<open>10^60\<close>
  and \<open>num_points \<ge> 2\<close>, the call returns \<open>num_points\<close> rows and each of them has
  \<open>x_upper = x_lower\<close> and \<open>y_upper = - y_lower\<close>.
\<close>

theorem naca0012_mirror_symmetric:
  assumes "2 \<le> n" and "0 \<le> chord" and "chord \<le> 10 ^ 60"
  shows "\<exists>rows. naca_four_digit_series (StrD ''0012'') chord n = Inr rows
           \<and> length rows = nat n \<and> list_all mirror_symmetric rows"
proof -
  from assms(1) have n0: "0 \<le> n" by simp
  from linspace_returns [OF n0, of chord]
  obtain xs where xs: "linspace 0 chord n = Inr xs" "length xs = nat n" by blast
  have pos: "\<forall>x\<in>set xs. 0 \<le> x" using linspace_range [OF assms(2) xs(1)] by blast
  then have "\<forall>x\<in>set xs. camber_defined 0 x" by (auto simp: camber_defined_def)
  from series_of_params [OF _ params_0012 xs(1) this]
  have res: "naca_four_digit_series (StrD ''0012'') chord n
               = Inr (map (station_row 0 0 (3 / 25 * chord)) xs)" by simp
  have "list_all mirror_symmetric (map (station_row 0 0 (3 / 25 * chord)) xs)"
    using pos by (simp add: list_all_iff station_row_flat_symmetric)
  with res xs(2) show ?thesis by simp
qed

theorem naca0012_mirror_symmetric_witness:
  "\<exists>rows. naca_four_digit_series (StrD ''0012'') 1 50 = Inr rows
           \<and> length rows = 50 \<and> list_all mirror_symmetric rows"
proof -
  have h: "(2::int) \<le> 50" "(0::real) \<le> 1" "(1::real) \<le> 10 ^ 60" by simp_all
  from naca0012_mirror_symmetric [OF h] show ?thesis by simp
qed

text \<open>
  The designation 0012 with chord -1 and two points: \<open>p = 0\<close>, the station -1 is
  below \<open>p\<close>, the first camber formula divides by \<open>p\<^sup>2 = 0\<close>, and the call raises
  ZeroDivisionError; there are no rows.
\<close>

theorem naca0012_mirror_symmetric_counterexample:
  "naca_four_digit_series (StrD ''0012'') (- 1) 2 = Inl ZeroDivisionError"
proof -
  have len: "length ''0012'' = 4" by simp
  have x: "(- 1 :: real) \<in> set [0, - 1]" by simp
  have bad: "\<not> camber_defined 0 (- 1 :: real)" by (simp add: camber_defined_def)
  show ?thesis
    by (rule series_zero_division_of_params [OF len params_0012 linspace_two x bad])
qed

section \<open>The point count\<close>

text \<open>
  C5, as the code has it. The point count is not validated. For four digits, a
  negative count fails with the ValueError of \<open>np.linspace\<close> and the count 0 returns
  an empty output, whatever the chord; the count 1 returns the single row of the
  station 0, for a chord that is 0 or of magnitude between \<open>10^-150\<close> and \<open>10^60\<close>.
\<close>

theorem point_count_not_validated:
  assumes "is_digit c1" "is_digit c2" "is_digit c3" "is_digit c4"
  shows "(n < 0 \<longrightarrow>
            naca_four_digit_series (StrD [c1, c2, c3, c4]) chord n = Inl ValueError_samples)
       \<and> naca_four_digit_series (StrD [c1, c2, c3, c4]) chord 0 = Inr []
       \<and> (chord = 0 \<or> (1 / 10 ^ 150 \<le> \<bar>chord\<bar> \<and> \<bar>chord\<bar> \<le> 10 ^ 60) \<longrightarrow>
            naca_four_digit_series (StrD [c1, c2, c3, c4]) chord 1 =
              Inr [station_row (real (digit_val c1) / 100 * chord)
                     (real (digit_val c2) / 10 * chord)
                     (real (10 * digit_val c3 + digit_val c4) / 100 * chord) 0])"
proof -
  let ?m = "real (digit_val c1) / 100 * chord"
  let ?p = "real (digit_val c2) / 10 * chord"
  let ?t = "real (10 * digit_val c3 + digit_val c4) / 100 * chord"
  have par: "airfoil_params [c1, c2, c3, c4] chord = Inr (?m, ?p, ?t)"
    using assms by (rule airfoil_params_digits)
  have len: "length [c1, c2, c3, c4] = 4" by simp
  have neg: "n < 0 \<longrightarrow>
            naca_four_digit_series (StrD [c1, c2, c3, c4]) chord n = Inl ValueError_samples"
    by (simp add: series_result [OF len par] linspace_small)
  have zero: "naca_four_digit_series (StrD [c1, c2, c3, c4]) chord 0 = Inr []"
    by (simp add: series_result [OF len par] linspace_small)
  have one: "naca_four_digit_series (StrD [c1, c2, c3, c4]) chord 1 = Inr [station_row ?m ?p ?t 0]"
    by (simp add: series_result [OF len par] linspace_small camber_defined_origin)
  from neg zero one show ?thesis by blast
qed

theorem point_count_not_validated_witness:
  "naca_four_digit_series (StrD ''2317'') 1 (- 1) = Inl ValueError_samples
   \<and> naca_four_digit_series (StrD ''2317'') 1 0 = Inr []
   \<and> naca_four_digit_series (StrD ''2317'') 1 1 =
       Inr [station_row (2 / 100 * 1) (3 / 10 * 1) (17 / 100 * 1) 0]"
proof -
  have d: "is_digit CHR ''2''" "is_digit CHR ''3''" "is_digit CHR ''1''" "is_digit CHR ''7''"
    by (simp_all add: is_digit_def)
  have r: "(1::real) = 0 \<or> (1 / 10 ^ 150 \<le> \<bar>1::real\<bar> \<and> \<bar>1::real\<bar> \<le> 10 ^ 60)" by simp
  from point_count_not_validated [OF d, of "- 1" 1] r show ?thesis
    by (simp add: digit_val_def)
qed

text \<open>
  The designation 0012 with chord 1: one point gives the row (0, 0, 0, 0), no point
  gives the empty output; neither call fails.
\<close>

theorem point_count_not_validated_counterexample:
  "naca_four_digit_series (StrD ''0012'') 1 1 = Inr [(Some 0, Some 0, Some 0, Some 0)]
   \<and> naca_four_digit_series (StrD ''0012'') 1 0 = Inr []"
proof -
  have len: "length ''0012'' = 4" by simp
  have "station_row 0 0 (3 / 25 * 1) 0 = (Some 0, Some 0, Some 0, Some 0)"
    by (simp add: station_row_origin yc_value_def)
  then show ?thesis
    by (simp add: series_result [OF len params_0012] linspace_small camber_defined_origin)
qed

section \<open>Doubling the chord\<close>

lemma yt_unit_chord_end: "yt_station (3 / 25 * 1) 1 = Some (63 / 50000)"
  by (simp add: yt_station_def)

lemma yt_double_chord_end:
  "yt_station (3 / 25 * 2) 2 = Some (6 / 5 * (2969 / 10000 * sqrt 2 - 126 / 125))"
  by (simp add: yt_station_def algebra_simps)

lemma sqrt2_coarse: "sqrt 2 < 2"
  by (rule real_less_lsqrt) simp_all

text \<open>
  C3 at a concrete input. The designation 0012 with two points: with chord 1 the
  last row is (1, 0.00126, 1, -0.00126); with chord 2 it is (2, h, 2, -h) for
  \<open>h = 1.2 (0.2969 \<surd>2 - 1.008)\<close>, which is negative (about -0.706) and not
  \<open>2 * 0.00126\<close>. The x columns double, the y columns do not.
\<close>

theorem chord_doubling_0012:
  "naca_four_digit_series (StrD ''0012'') 1 2 =
     Inr [(Some 0, Some 0, Some 0, Some 0),
          (Some 1, Some (63 / 50000), Some 1, Some (- (63 / 50000)))]
   \<and> naca_four_digit_series (StrD ''0012'') 2 2 =
     Inr [(Some 0, Some 0, Some 0, Some 0),
          (Some 2, Some (6 / 5 * (2969 / 10000 * sqrt 2 - 126 / 125)),
           Some 2, Some (- (6 / 5 * (2969 / 10000 * sqrt 2 - 126 / 125))))]
   \<and> 6 / 5 * (2969 / 10000 * sqrt 2 - 126 / 125) < 0
   \<and> 6 / 5 * (2969 / 10000 * sqrt 2 - 126 / 125) \<noteq> 2 * (63 / 50000)"
proof -
  have len: "length ''0012'' = 4" by simp
  have ok: "\<forall>x\<in>set [0, c :: real]. camber_defined 0 x" if "0 \<le> c" for c
    using that by (simp add: camber_defined_def)
  have origin: "station_row 0 0 t 0 = (Some 0, Some 0, Some 0, Some 0)" for t
    by (simp add: station_row_origin yc_value_def)
  have one: "naca_four_digit_series (StrD ''0012'') 1 2 =
     Inr [(Some 0, Some 0, Some 0, Some 0),
          (Some 1, Some (63 / 50000), Some 1, Some (- (63 / 50000)))]"
    using series_of_params [OF len params_0012 linspace_two ok, of 1]
      station_row_flat [OF yt_unit_chord_end]
    by (simp add: origin)
  have two: "naca_four_digit_series (StrD ''0012'') 2 2 =
     Inr [(Some 0, Some 0, Some 0, Some 0),
          (Some 2, Some (6 / 5 * (2969 / 10000 * sqrt 2 - 126 / 125)),
           Some 2, Some (- (6 / 5 * (2969 / 10000 * sqrt 2 - 126 / 125))))]"
    using series_of_params [OF len params_0012 linspace_two ok, of 2]
      station_row_flat [OF yt_double_chord_end]
    by (simp add: origin)
  have "2969 / 10000 * sqrt 2 < 2969 / 10000 * 2"
    using sqrt2_coarse by simp
  then have neg: "6 / 5 * (2969 / 10000 * sqrt 2 - 126 / 125) < 0" by simp
  then have ne: "6 / 5 * (2969 / 10000 * sqrt 2 - 126 / 125) \<noteq> 2 * (63 / 50000)" by simp
  from one two neg ne show ?thesis by blast
qed

section \<open>Integer designations\<close>

lemma series_IntD:
  "naca_four_digit_series (IntD i) chord n = naca_four_digit_series (StrD (py_str i)) chord n"
  by (simp add: naca_four_digit_series_def designation_str_def)

lemma length_str_nat_cases:
  "(k < 10 \<longrightarrow> length (str_nat k) = 1)
   \<and> (10 \<le> k \<and> k < 100 \<longrightarrow> length (str_nat k) = 2)
   \<and> (100 \<le> k \<and> k < 1000 \<longrightarrow> length (str_nat k) = 3)
   \<and> (1000 \<le> k \<and> k < 10000 \<longrightarrow> length (str_nat k) = 4)
   \<and> (10000 \<le> k \<longrightarrow> 5 \<le> length (str_nat k))"
  by (simp add: str_nat_small str_nat_2 str_nat_3 str_nat_4 length_str_nat_5)

lemma length_str_nat_4_iff: "length (str_nat k) = 4 \<longleftrightarrow> 1000 \<le> k \<and> k < 10000"
proof -
  consider "k < 10" | "10 \<le> k \<and> k < 100" | "100 \<le> k \<and> k < 1000"
    | "1000 \<le> k \<and> k < 10000" | "10000 \<le> k" by linarith
  then show ?thesis
  proof cases
    case 1 with length_str_nat_cases [of k] show ?thesis by simp
  next
    case 2 with length_str_nat_cases [of k] show ?thesis by simp
  next
    case 3 with length_str_nat_cases [of k] show ?thesis by simp
  next
    case 4 with length_str_nat_cases [of k] show ?thesis by simp
  next
    case 5 with length_str_nat_cases [of k] show ?thesis by simp
  qed
qed

lemma length_str_nat_short: "k < 1000 \<Longrightarrow> length (str_nat k) < 4"
proof -
  assume k: "k < 1000"
  consider "k < 10" | "10 \<le> k \<and> k < 100" | "100 \<le> k \<and> k < 1000" using k by linarith
  then show ?thesis
  proof cases
    case 1 with length_str_nat_cases [of k] show ?thesis by simp
  next
    case 2 with length_str_nat_cases [of k] show ?thesis by simp
  next
    case 3 with length_str_nat_cases [of k] show ?thesis by simp
  qed
qed

lemma py_int_minus: "py_int [CHR ''-''] = None"
  by (simp add: py_int_def strip_def is_space_def parse_unsigned_def)

lemma params_minus: "airfoil_params (CHR ''-'' # cs) chord = Inl ValueError_literal"
  by (simp add: airfoil_params_def py_int_minus)

lemma series_minus:
  "length cs = 3 \<Longrightarrow>
     naca_four_digit_series (StrD (CHR ''-'' # cs)) chord n = Inl ValueError_literal"
  by (simp add: naca_four_digit_series_def designation_str_def params_minus)

lemma series_error_kinds:
  assumes "is_digit c1" "is_digit c2" "is_digit c3" "is_digit c4"
  shows "naca_four_digit_series (StrD [c1, c2, c3, c4]) chord n \<noteq> Inl ValueError_literal"
    and "naca_four_digit_series (StrD [c1, c2, c3, c4]) chord n \<noteq> Inl (AssertionError k)"
proof -
  have len: "length [c1, c2, c3, c4] = 4" by simp
  note res = series_result [OF len airfoil_params_digits [OF assms], of chord n]
  show "naca_four_digit_series (StrD [c1, c2, c3, c4]) chord n \<noteq> Inl ValueError_literal"
  proof (cases "linspace 0 chord n")
    case (Inl e)
    with linspace_error [OF Inl] res show ?thesis by simp
  next
    case (Inr xs)
    with res show ?thesis by simp
  qed
  show "naca_four_digit_series (StrD [c1, c2, c3, c4]) chord n \<noteq> Inl (AssertionError k)"
  proof (cases "linspace 0 chord n")
    case (Inl e)
    with linspace_error [OF Inl] res show ?thesis by simp
  next
    case (Inr xs)
    with res show ?thesis by simp
  qed
qed

lemma str_nat_4_digits:
  assumes "1000 \<le> k" "k < 10000"
  shows "\<exists>c1 c2 c3 c4. str_nat k = [c1, c2, c3, c4] \<and> is_digit c1 \<and> is_digit c2
           \<and> is_digit c3 \<and> is_digit c4 \<and> c1 \<noteq> CHR ''0'' \<and> 1 \<le> digit_val c1"
proof -
  have a: "k div 1000 < 10" "1 \<le> k div 1000" using assms by auto
  have b: "k div 100 mod 10 < 10" "k div 10 mod 10 < 10" "k mod 10 < 10" by simp_all
  have nz: "digit_char (k div 1000) \<noteq> CHR ''0''"
    using digit_val_zero [of "digit_char (k div 1000)"] digit_char_props [OF a(1)] a(2) by auto
  have "1 \<le> digit_val (digit_char (k div 1000))" using digit_char_props [OF a(1)] a(2) by simp
  with str_nat_4 [OF assms] digit_char_props [OF a(1)] digit_char_props [OF b(1)]
    digit_char_props [OF b(2)] digit_char_props [OF b(3)] nz
  show ?thesis by blast
qed

lemma series_wrong_length:
  "length s \<noteq> 4 \<Longrightarrow> naca_four_digit_series (StrD s) chord n = Inl (AssertionError (length s))"
  by (simp add: naca_four_digit_series_def designation_str_def)

lemma integer_rejected:
  assumes "\<not> (1000 \<le> i \<and> i \<le> 9999)"
  shows "naca_four_digit_series (IntD i) chord n = Inl ValueError_literal
       \<or> naca_four_digit_series (IntD i) chord n = Inl (AssertionError (length (py_str i)))"
proof (cases "i < 0")
  case True
  then have s: "py_str i = CHR ''-'' # str_nat (nat (- i))" by (simp add: py_str_def)
  show ?thesis
  proof (cases "length (str_nat (nat (- i))) = 3")
    case True
    then show ?thesis by (simp add: series_IntD s series_minus)
  next
    case False
    then have "length (py_str i) \<noteq> 4" by (simp add: s)
    then show ?thesis by (simp add: series_IntD series_wrong_length)
  qed
next
  case False
  then have s: "py_str i = str_nat (nat i)" by (simp add: py_str_def)
  from False assms have "\<not> (1000 \<le> nat i \<and> nat i < 10000)" by linarith
  then have "length (py_str i) \<noteq> 4" by (simp add: s length_str_nat_4_iff)
  then show ?thesis by (simp add: series_IntD series_wrong_length)
qed

text \<open>
  C10. An integer designation is replaced by its decimal string, without padding.
  An integer from 0 to 999 has fewer than four characters and is rejected by the
  assertion with that count. The integers that pass the assertion and the parsing
  of the digits are exactly those from 1000 to 9999, and their first digit is not
  0 (so that \<open>m \<noteq> 0\<close> unless the chord is 0).
\<close>

theorem integer_designation_not_padded:
  "(0 \<le> i \<and> i \<le> 999 \<longrightarrow>
       length (py_str i) < 4
     \<and> naca_four_digit_series (IntD i) chord n = Inl (AssertionError (length (py_str i))))
   \<and> ((1000 \<le> i \<and> i \<le> 9999) \<longleftrightarrow>
       (naca_four_digit_series (IntD i) chord n \<noteq> Inl ValueError_literal
        \<and> (\<forall>k. naca_four_digit_series (IntD i) chord n \<noteq> Inl (AssertionError k))))
   \<and> (1000 \<le> i \<and> i \<le> 9999 \<longrightarrow>
       (\<exists>c1 c2 c3 c4. py_str i = [c1, c2, c3, c4] \<and> is_digit c1 \<and> is_digit c2
          \<and> is_digit c3 \<and> is_digit c4 \<and> c1 \<noteq> CHR ''0'' \<and> 1 \<le> digit_val c1))"
proof -
  have small: "0 \<le> i \<and> i \<le> 999 \<longrightarrow>
       length (py_str i) < 4
     \<and> naca_four_digit_series (IntD i) chord n = Inl (AssertionError (length (py_str i)))"
  proof
    assume i: "0 \<le> i \<and> i \<le> 999"
    then have s: "py_str i = str_nat (nat i)" by (simp add: py_str_def)
    from i have "nat i < 1000" by linarith
    then have len: "length (py_str i) < 4" unfolding s by (rule length_str_nat_short)
    then have "length (py_str i) \<noteq> 4" by simp
    then have "naca_four_digit_series (IntD i) chord n = Inl (AssertionError (length (py_str i)))"
      by (simp add: series_IntD series_wrong_length)
    with len show "length (py_str i) < 4
     \<and> naca_four_digit_series (IntD i) chord n = Inl (AssertionError (length (py_str i)))" ..
  qed
  have digits: "\<exists>c1 c2 c3 c4. py_str i = [c1, c2, c3, c4] \<and> is_digit c1 \<and> is_digit c2
          \<and> is_digit c3 \<and> is_digit c4 \<and> c1 \<noteq> CHR ''0'' \<and> 1 \<le> digit_val c1"
    if i: "1000 \<le> i \<and> i \<le> 9999"
  proof -
    from i have s: "py_str i = str_nat (nat i)" by (simp add: py_str_def)
    from i have "1000 \<le> nat i" "nat i < 10000" by linarith+
    then show ?thesis unfolding s by (rule str_nat_4_digits)
  qed
  have accepted: "naca_four_digit_series (IntD i) chord n \<noteq> Inl ValueError_literal
        \<and> (\<forall>k. naca_four_digit_series (IntD i) chord n \<noteq> Inl (AssertionError k))"
    if i: "1000 \<le> i \<and> i \<le> 9999"
  proof -
    from digits [OF i] obtain c1 c2 c3 c4 where
      s: "py_str i = [c1, c2, c3, c4]" and d: "is_digit c1" "is_digit c2" "is_digit c3" "is_digit c4"
      by blast
    from series_error_kinds [OF d, of chord n] show ?thesis by (simp add: series_IntD s)
  qed
  have rejected: "1000 \<le> i \<and> i \<le> 9999"
    if ok: "naca_four_digit_series (IntD i) chord n \<noteq> Inl ValueError_literal
        \<and> (\<forall>k. naca_four_digit_series (IntD i) chord n \<noteq> Inl (AssertionError k))"
  proof (rule ccontr)
    assume "\<not> (1000 \<le> i \<and> i \<le> 9999)"
    from integer_rejected [OF this, of chord n] ok show False by blast
  qed
  from small digits accepted rejected show ?thesis by blast
qed

theorem integer_designation_not_padded_witness:
  "naca_four_digit_series (IntD 12) 1 50 = Inl (AssertionError 2)
   \<and> naca_four_digit_series (IntD 2317) 1 50 \<noteq> Inl ValueError_literal
   \<and> naca_four_digit_series (IntD 2317) 1 50 \<noteq> Inl (AssertionError 4)"
proof -
  have s: "length (py_str 12) = 2"
    by (simp add: py_str_def str_nat_2)
  from integer_designation_not_padded [of 12 1 50] integer_designation_not_padded [of 2317 1 50]
  show ?thesis by (simp add: s)
qed

end
